theory Spec2Isabelle
  imports Main "HOL-Library.Sublist" "HOL-Library.Multiset"
begin

section \<open>Data model\<close>

text \<open>
  The \<open>Bookmark\<close> interface of DashboardClient.tsx and page.tsx. The field \<open>id\<close> is
  written \<open>id'\<close> (HOL's \<open>id\<close> is the identity function). \<open>created_at\<close> is the
  server-assigned TIMESTAMPTZ; the client receives it as an ISO string and never
  computes with it in the list logic, so it is modelled by the instant it denotes,
  an integer.
\<close>

record bookmark =
  id' :: string
  user_id :: string
  title :: string
  url :: string
  created_at :: int

text \<open>
  The \<open>old\<close> part of a DELETE change payload: a partial row. Which columns the
  transport fills in depends on the table's replica identity, so every column is
  optional (\<open>None\<close> is JavaScript's \<open>undefined\<close>).
\<close>

record old_row =
  old_id :: "string option"
  old_user_id :: "string option"
  old_title :: "string option"
  old_url :: "string option"
  old_created_at :: "int option"

section \<open>The realtime handlers on the bookmark list\<close>

text \<open>
  The state updater of the INSERT handler:
  \<^verbatim>\<open>(prev) => { const exists = prev.some((b) => b.id === payload.new.id);
             if (exists) return prev;
             return [payload.new as Bookmark, ...prev]; }\<close>
  The spec calls it \<open>upsertIfAbsent\<close>.
\<close>

definition on_INSERT :: "bookmark \<Rightarrow> bookmark list \<Rightarrow> bookmark list" where
  "on_INSERT payload_new prev =
     (let exists = list_ex (\<lambda>b. id' b = id' payload_new) prev
      in if exists then prev else payload_new # prev)"

text \<open>
  The state updater of the DELETE handler:
  \<^verbatim>\<open>(prev) => prev.filter((b) => b.id !== payload.old.id)\<close>
  \<open>b.id\<close> is a string; \<open>payload.old.id\<close> is a string or \<open>undefined\<close>, and
  \<open>!==\<close> between a string and \<open>undefined\<close> is true. The spec calls the updater
  \<open>removeById\<close>.
\<close>

definition on_DELETE :: "old_row \<Rightarrow> bookmark list \<Rightarrow> bookmark list" where
  "on_DELETE payload_old prev = filter (\<lambda>b. Some (id' b) \<noteq> old_id payload_old) prev"

text \<open>Insertion events handled one after the other, in arrival order.\<close>

fun on_INSERTs :: "bookmark list \<Rightarrow> bookmark list \<Rightarrow> bookmark list" where
  "on_INSERTs [] prev = prev"
| "on_INSERTs (payload_new # rest) prev = on_INSERTs rest (on_INSERT payload_new prev)"

text \<open>A deletion event that carries the identifier \<open>i\<close> and nothing else.\<close>

definition deletion_of :: "string \<Rightarrow> old_row" where
  "deletion_of i =
     \<lparr>old_id = Some i, old_user_id = None, old_title = None, old_url = None,
      old_created_at = None\<rparr>"

text \<open>Applying the same deletion event \<open>n\<close> times.\<close>

fun on_DELETE_times :: "nat \<Rightarrow> old_row \<Rightarrow> bookmark list \<Rightarrow> bookmark list" where
  "on_DELETE_times 0 payload_old prev = prev"
| "on_DELETE_times (Suc n) payload_old prev =
     on_DELETE_times n payload_old (on_DELETE payload_old prev)"

section \<open>JavaScript string operations used by the component\<close>

text \<open>
  JavaScript strings are modelled as HOL strings (lists of 8-bit characters), which
  covers the ASCII and Latin-1 range. \<open>String.prototype.trim\<close> removes white space
  and line terminators from both ends; in this range these are TAB, LF, VT, FF, CR,
  SPACE and NBSP.
\<close>

definition isWhiteSpace :: "char \<Rightarrow> bool" where
  "isWhiteSpace c =
     (c \<in> set [CHR 0x09, CHR 0x0A, CHR 0x0B, CHR 0x0C, CHR 0x0D, CHR 0x20, CHR 0xA0])"

definition trim :: "string \<Rightarrow> string" where
  "trim s = rev (dropWhile isWhiteSpace (rev (dropWhile isWhiteSpace s)))"

text \<open>\<open>s.startsWith(p)\<close>: \<open>p\<close> is read off the front of \<open>s\<close>.\<close>

fun startsWith :: "string \<Rightarrow> string \<Rightarrow> bool" where
  "startsWith s [] = True"
| "startsWith [] (c # p) = False"
| "startsWith (x # s) (c # p) = (x = c \<and> startsWith s p)"

text \<open>
  \<open>s.includes(q)\<close>: \<open>q\<close> starts at some position of \<open>s\<close> (\<open>includes\<close> is a
  keyword of Isabelle, hence the suffix). The empty string is included in every string.
\<close>

fun includes_str :: "string \<Rightarrow> string \<Rightarrow> bool" where
  "includes_str [] q = (q = [])"
| "includes_str (c # s) q = (startsWith (c # s) q \<or> includes_str s q)"

text \<open>
  \<open>String.prototype.toLowerCase\<close> is the platform's Unicode case conversion. It is a
  parameter \<open>toLowerCase\<close> of the model, so what is proved holds for every such
  function. The spec's wording of the search is that \<open>q\<close> is a case-insensitive
  substring of \<open>s\<close>: some stretch \<open>m\<close> of \<open>s\<close> equals \<open>q\<close> up to the case of letters.
\<close>

definition contains_ci :: "(string \<Rightarrow> string) \<Rightarrow> string \<Rightarrow> string \<Rightarrow> bool" where
  "contains_ci toLowerCase s q =
     (\<exists>pre m post. s = pre @ m @ post \<and> toLowerCase m = toLowerCase q)"

section \<open>The dashboard page: the snapshot the component starts from\<close>

text \<open>
  page.tsx reads the user's rows with
  \<^verbatim>\<open>supabase.from("bookmarks").select("*").order("created_at", { ascending: false })\<close>.
  The row-level security policy of the migration (\<open>auth.uid() = user_id\<close>) restricts
  the rows to the caller's, and the database orders them by \<open>created_at\<close> descending.
\<close>

definition order_created_at_desc :: "bookmark list \<Rightarrow> bookmark list" where
  "order_created_at_desc rows = rev (sort_key created_at rows)"

definition select_bookmarks :: "string \<Rightarrow> bookmark list \<Rightarrow> bookmark list" where
  "select_bookmarks uid table = order_created_at_desc (filter (\<lambda>r. user_id r = uid) table)"

text \<open>
  \<^verbatim>\<open>initialBookmarks={(bookmarks as Bookmark[]) ?? []}\<close>: the query's \<open>data\<close> is
  \<open>null\<close> (here \<open>None\<close>) when the query failed.
\<close>

definition initialBookmarks_of :: "bookmark list option \<Rightarrow> bookmark list" where
  "initialBookmarks_of data = (case data of None \<Rightarrow> [] | Some bookmarks \<Rightarrow> bookmarks)"

text \<open>The list is newest first: creation timestamps never increase along it.\<close>

definition newest_first :: "bookmark list \<Rightarrow> bool" where
  "newest_first bs = sorted_wrt (\<lambda>a b. created_at b \<le> created_at a) bs"

section \<open>The component state\<close>

text \<open>
  The \<open>useState\<close> cells of DashboardClient. The cells \<open>title\<close> and \<open>url\<close> hold the
  text of the inputs \<open>title-input\<close> and \<open>url-input\<close> and are named after them, since
  \<open>title\<close> and \<open>url\<close> are the bookmark's fields here.
\<close>

datatype toast_type = Success | Error

record dashboard =
  bookmarks :: "bookmark list"
  title_input :: string
  url_input :: string
  search :: string
  isAdding :: bool
  toast :: "(string \<times> toast_type) option"

definition DashboardClient :: "bookmark list \<Rightarrow> dashboard" where
  "DashboardClient initialBookmarks =
     \<lparr>bookmarks = initialBookmarks, title_input = [], url_input = [], search = [],
      isAdding = False, toast = None\<rparr>"

definition showToast :: "string \<Rightarrow> toast_type \<Rightarrow> dashboard \<Rightarrow> dashboard" where
  "showToast message type st = st\<lparr>toast := Some (message, type)\<rparr>"

text \<open>A change event of the push feed, and the handler it runs.\<close>

datatype change = INSERT bookmark | DELETE old_row

fun on_change :: "change \<Rightarrow> dashboard \<Rightarrow> dashboard" where
  "on_change (INSERT payload_new) st = st\<lparr>bookmarks := on_INSERT payload_new (bookmarks st)\<rparr>"
| "on_change (DELETE payload_old) st = st\<lparr>bookmarks := on_DELETE payload_old (bookmarks st)\<rparr>"

text \<open>The events are handled one after the other, each to completion.\<close>

fun on_changes :: "change list \<Rightarrow> dashboard \<Rightarrow> dashboard" where
  "on_changes [] st = st"
| "on_changes (e # es) st = on_changes es (on_change e st)"

text \<open>
  \<^verbatim>\<open>bookmarks.filter((b) => b.title.toLowerCase().includes(search.toLowerCase()) ||
                            b.url.toLowerCase().includes(search.toLowerCase()))\<close>
\<close>

definition filteredBookmarks ::
  "(string \<Rightarrow> string) \<Rightarrow> string \<Rightarrow> bookmark list \<Rightarrow> bookmark list" where
  "filteredBookmarks toLowerCase q bs =
     filter (\<lambda>b. includes_str (toLowerCase (title b)) (toLowerCase q)
                \<or> includes_str (toLowerCase (url b)) (toLowerCase q)) bs"

definition filteredView :: "(string \<Rightarrow> string) \<Rightarrow> dashboard \<Rightarrow> bookmark list" where
  "filteredView toLowerCase st = filteredBookmarks toLowerCase (search st) (bookmarks st)"

section \<open>Adding and deleting\<close>

text \<open>
  \<open>new URL(str)\<close> is the platform's URL parser; it throws on a string it cannot parse
  (\<open>None\<close>). The parser is a parameter of the model.
\<close>

record URL =
  protocol :: string
  hostname :: string
  pathname :: string

definition isValidUrl :: "(string \<Rightarrow> URL option) \<Rightarrow> string \<Rightarrow> bool" where
  "isValidUrl newURL str =
     (case newURL str of
        None \<Rightarrow> False
      | Some urlObj \<Rightarrow> protocol urlObj = ''http:'' \<or> protocol urlObj = ''https:'')"

text \<open>
  The requests the component sends to the remote store, and its answer: the \<open>error\<close>
  of the response, \<open>None\<close> for \<open>null\<close>.
\<close>

datatype request =
  Insert (insert_title: string) (insert_url: string) (insert_user_id: string)
| Delete_eq_id string

type_synonym remote = "request \<Rightarrow> string option"

text \<open>The address the handler validates and sends: lines 105 to 108.\<close>

definition finalUrl_of :: "string \<Rightarrow> string" where
  "finalUrl_of u =
     (let finalUrl = trim u
      in if \<not> startsWith finalUrl ''http://'' \<and> \<not> startsWith finalUrl ''https://''
         then ''https://'' @ finalUrl else finalUrl)"

text \<open>
  \<open>handleAddBookmark\<close> up to its \<open>await\<close>: the two validation exits (no request), or
  \<open>setIsAdding(true)\<close> and the insert request.
\<close>

definition handleAddBookmark_submit ::
  "(string \<Rightarrow> URL option) \<Rightarrow> string \<Rightarrow> dashboard \<Rightarrow> dashboard \<times> request option" where
  "handleAddBookmark_submit newURL uid st =
     (if trim (title_input st) = [] then (showToast ''Please enter a title'' Error st, None)
      else
        let finalUrl = finalUrl_of (url_input st)
        in if \<not> isValidUrl newURL finalUrl
           then (showToast ''Please enter a valid URL'' Error st, None)
           else (st\<lparr>isAdding := True\<rparr>, Some (Insert (trim (title_input st)) finalUrl uid)))"

text \<open>\<open>handleAddBookmark\<close> after its \<open>await\<close>, on the state of that moment.\<close>

definition handleAddBookmark_settle :: "string option \<Rightarrow> dashboard \<Rightarrow> dashboard" where
  "handleAddBookmark_settle error st =
     (let st' = (case error of
                   Some e \<Rightarrow> showToast ''Failed to add bookmark'' Error st
                 | None \<Rightarrow> (showToast ''Bookmark added!'' Success st)
                             \<lparr>title_input := [], url_input := []\<rparr>)
      in st'\<lparr>isAdding := False\<rparr>)"

text \<open>
  The whole handler. \<open>pending\<close> are the push events the tab handles while the request
  is in flight. The result is the final state and the requests sent to the remote
  store, in order.
\<close>

definition handleAddBookmark ::
  "(string \<Rightarrow> URL option) \<Rightarrow> remote \<Rightarrow> string \<Rightarrow> change list \<Rightarrow> dashboard
     \<Rightarrow> dashboard \<times> request list" where
  "handleAddBookmark newURL supabase uid pending st =
     (case handleAddBookmark_submit newURL uid st of
        (st1, None) \<Rightarrow> (st1, [])
      | (st1, Some rq) \<Rightarrow>
          (handleAddBookmark_settle (supabase rq) (on_changes pending st1), [rq]))"

definition handleDeleteBookmark_settle :: "string option \<Rightarrow> dashboard \<Rightarrow> dashboard" where
  "handleDeleteBookmark_settle error st =
     (case error of
        Some e \<Rightarrow> showToast ''Failed to delete bookmark'' Error st
      | None \<Rightarrow> showToast ''Bookmark deleted'' Success st)"

definition handleDeleteBookmark ::
  "remote \<Rightarrow> string \<Rightarrow> change list \<Rightarrow> dashboard \<Rightarrow> dashboard \<times> request list" where
  "handleDeleteBookmark supabase i pending st =
     (handleDeleteBookmark_settle (supabase (Delete_eq_id i)) (on_changes pending st),
      [Delete_eq_id i])"

section \<open>The realtime subscription and its lifetime\<close>

text \<open>
  The client keeps the channels it has open; a channel is an object, told apart by a
  reference. The effect of the component opens the channel \<open>bookmarks-realtime\<close> with
  two \<open>postgres_changes\<close> bindings filtered to the user, and returns the cleanup that
  removes this channel.
\<close>

datatype pg_event = INSERT_event | DELETE_event

record binding =
  event :: pg_event
  schema :: string
  table :: string
  row_filter :: string

record channel =
  ref :: nat
  topic :: string
  bindings :: "binding list"

record client =
  channels :: "channel list"
  next_ref :: nat

definition realtime_effect :: "string \<Rightarrow> client \<Rightarrow> channel \<times> client" where
  "realtime_effect uid supabase =
     (let channel =
        \<lparr>ref = next_ref supabase, topic = ''bookmarks-realtime'',
         bindings =
           [\<lparr>event = INSERT_event, schema = ''public'', table = ''bookmarks'',
             row_filter = ''user_id=eq.'' @ uid\<rparr>,
            \<lparr>event = DELETE_event, schema = ''public'', table = ''bookmarks'',
             row_filter = ''user_id=eq.'' @ uid\<rparr>]\<rparr>
      in (channel,
          supabase\<lparr>channels := channels supabase @ [channel],
                   next_ref := Suc (next_ref supabase)\<rparr>))"

definition removeChannel :: "channel \<Rightarrow> client \<Rightarrow> client" where
  "removeChannel channel supabase =
     supabase\<lparr>channels := filter (\<lambda>c. ref c \<noteq> ref channel) (channels supabase)\<rparr>"

text \<open>
  How React drives the effect (dependencies \<open>[supabase, user.id]\<close>): it runs the effect
  when the component mounts, runs the last cleanup and then the effect again when a
  render changes a dependency, and runs the last cleanup when the component unmounts.
  The mounted component holds the dependency value and the channel its cleanup closes
  over.
\<close>

datatype lifecycle = Mount string | Render string | Unmount

type_synonym mounted = "(string \<times> channel) option"

fun react :: "lifecycle \<Rightarrow> mounted \<times> client \<Rightarrow> mounted \<times> client" where
  "react (Mount uid) (None, supabase) =
     (let (channel, supabase') = realtime_effect uid supabase
      in (Some (uid, channel), supabase'))"
| "react (Render uid) (Some (dep, channel), supabase) =
     (if uid = dep then (Some (dep, channel), supabase)
      else let (channel', supabase') = realtime_effect uid (removeChannel channel supabase)
           in (Some (uid, channel'), supabase'))"
| "react Unmount (Some (dep, channel), supabase) = (None, removeChannel channel supabase)"
| "react e s = s"

fun reacts :: "lifecycle list \<Rightarrow> mounted \<times> client \<Rightarrow> mounted \<times> client" where
  "reacts [] s = s"
| "reacts (e # es) s = reacts es (react e s)"

text \<open>
  What holds of the client at every moment of the component's life, relative to the
  channels \<open>before\<close> that were open when it started: references are below the
  client's counter; an unmounted component has no channel of its own open; a mounted
  one has exactly one, the channel its cleanup will remove, subscribed to the
  insertions and deletions of the user it was rendered for.
\<close>

definition own_channel :: "string \<Rightarrow> channel \<Rightarrow> bool" where
  "own_channel uid channel =
     (topic channel = ''bookmarks-realtime''
      \<and> map event (bindings channel) = [INSERT_event, DELETE_event]
      \<and> map row_filter (bindings channel) = [''user_id=eq.'' @ uid, ''user_id=eq.'' @ uid])"

definition refs_below :: "client \<Rightarrow> bool" where
  "refs_below supabase = list_all (\<lambda>c. ref c < next_ref supabase) (channels supabase)"

fun scoped :: "channel list \<Rightarrow> mounted \<times> client \<Rightarrow> bool" where
  "scoped before (None, supabase) = (refs_below supabase \<and> channels supabase = before)"
| "scoped before (Some (dep, channel), supabase) =
     (refs_below supabase \<and> channels supabase = before @ [channel]
      \<and> list_all (\<lambda>c. ref c \<noteq> ref channel) before \<and> own_channel dep channel)"

section \<open>Sample data\<close>

text \<open>The records of the spec's scenario: A, B and C with timestamps 10, 20 and 30.\<close>

definition bmA :: bookmark where
  "bmA = \<lparr>id' = ''a'', user_id = ''u1'', title = ''Alpha'', url = ''https://a.example'',
          created_at = 10\<rparr>"

definition bmB :: bookmark where
  "bmB = \<lparr>id' = ''b'', user_id = ''u1'', title = ''Beta'', url = ''https://b.example'',
          created_at = 20\<rparr>"

definition bmC :: bookmark where
  "bmC = \<lparr>id' = ''c'', user_id = ''u1'', title = ''Gamma'', url = ''https://c.example'',
          created_at = 30\<rparr>"

text \<open>
  A record whose title starts with the accented capital \<open>0xC9\<close>, and two insertion
  events for the identifier \<open>z\<close> whose titles differ (the spec's scenario of two
  near-simultaneous calls).
\<close>

definition bmEcole :: bookmark where
  "bmEcole = \<lparr>id' = ''e'', user_id = ''u1'', title = CHR 0xC9 # ''cole'',
              url = ''https://e.example'', created_at = 50\<rparr>"

definition bmZ1 :: bookmark where
  "bmZ1 = \<lparr>id' = ''z'', user_id = ''u1'', title = ''first'', url = ''https://z.example'',
           created_at = 40\<rparr>"

definition bmZ2 :: bookmark where
  "bmZ2 = \<lparr>id' = ''z'', user_id = ''u1'', title = ''second'', url = ''https://z.example'',
           created_at = 40\<rparr>"

text \<open>
  What \<open>toLowerCase\<close> returns on the strings of this model (the Latin-1 range), for
  the examples: the letters \<open>A\<close> to \<open>Z\<close> and the accented capitals \<open>0xC0\<close> to \<open>0xDE\<close>
  (without the multiplication sign \<open>0xD7\<close>) move up by \<open>0x20\<close>, every other
  character is kept.
\<close>

definition sample_lower_char :: "char \<Rightarrow> char" where
  "sample_lower_char c =
     (let n = (of_char c :: nat)
      in if (65 \<le> n \<and> n \<le> 90) \<or> (192 \<le> n \<and> n \<le> 214) \<or> (216 \<le> n \<and> n \<le> 222)
         then char_of (n + 32) else c)"

definition sample_toLowerCase :: "string \<Rightarrow> string" where
  "sample_toLowerCase s = map sample_lower_char s"

text \<open>
  What \<open>new URL\<close> returns on the strings of the examples: \<open>https://example.com\<close>
  parses; \<open>https://javascript:alert(1)\<close> does not (after the host \<open>javascript\<close> the
  port \<open>alert(1)\<close> is not a number, and the parser throws). The table has no other
  entry.
\<close>

definition sample_newURL :: "string \<Rightarrow> URL option" where
  "sample_newURL str =
     (if str = ''https://example.com''
      then Some \<lparr>protocol = ''https:'', hostname = ''example.com'', pathname = ''/''\<rparr>
      else None)"

text \<open>
  The dashboard with B and A in the list and the form filled in with a title and an
  address; a remote store that accepts every request, and one that fails every request.
\<close>

definition sample_form :: "string \<Rightarrow> string \<Rightarrow> dashboard" where
  "sample_form t u = (DashboardClient [bmB, bmA])\<lparr>title_input := t, url_input := u\<rparr>"

definition remote_ok :: remote where
  "remote_ok rq = None"

definition remote_down :: remote where
  "remote_down rq = Some ''network error''"

text \<open>A client with no channel open.\<close>

definition fresh_client :: client where
  "fresh_client = \<lparr>channels = [], next_ref = 0\<rparr>"

section \<open>Removal\<close>

lemma on_DELETE_idem: "on_DELETE p (on_DELETE p s) = on_DELETE p s"
  by (simp add: on_DELETE_def)

lemma on_DELETE_times_Suc: "on_DELETE_times (Suc n) p s = on_DELETE p s"
  by (induction n arbitrary: s) (simp_all add: on_DELETE_idem)

lemma on_DELETE_absent:
  "old_id p = Some i \<Longrightarrow> i \<notin> set (map id' s) \<Longrightarrow> on_DELETE p s = s"
  by (induction s) (auto simp: on_DELETE_def)

lemma on_DELETE_no_id: "old_id p = None \<Longrightarrow> on_DELETE p s = s"
  by (simp add: on_DELETE_def)

text \<open>
  C6. For a deletion event with identifier \<open>i\<close>: afterwards no entry has the
  identifier \<open>i\<close>, the entries with other identifiers are the same and in the same
  order; when no entry had the identifier the list is returned as it is (no error: the
  updater has no failing branch); and one further removal, or any number \<open>n\<close> of them,
  gives the list that one removal gives.
\<close>

theorem removeById_idempotent:
  assumes "old_id p = Some i"
  shows "i \<notin> set (map id' (on_DELETE p s))
    \<and> filter (\<lambda>b. id' b \<noteq> i) (on_DELETE p s) = filter (\<lambda>b. id' b \<noteq> i) s
    \<and> (i \<notin> set (map id' s) \<longrightarrow> on_DELETE p s = s)
    \<and> on_DELETE_times (Suc n) p s = on_DELETE p s
    \<and> on_DELETE_times n p (on_DELETE p s) = on_DELETE p s"
proof -
  have gone: "i \<notin> set (map id' (on_DELETE p s))"
    using assms by (auto simp: on_DELETE_def)
  have others: "filter (\<lambda>b. id' b \<noteq> i) (on_DELETE p s) = filter (\<lambda>b. id' b \<noteq> i) s"
    using assms by (simp add: on_DELETE_def)
  have absent: "i \<notin> set (map id' s) \<longrightarrow> on_DELETE p s = s"
    using assms on_DELETE_absent by blast
  have again: "on_DELETE_times (Suc n) p s = on_DELETE p s"
    by (rule on_DELETE_times_Suc)
  then have "on_DELETE_times n p (on_DELETE p s) = on_DELETE p s"
    by simp
  with gone others absent again show ?thesis
    by blast
qed

theorem removeById_idempotent_witness:
  "old_id (deletion_of ''x'') = Some ''x''
   \<and> ''x'' \<notin> set (map id' [bmB, bmA])
   \<and> on_DELETE (deletion_of ''x'') [bmB, bmA] = [bmB, bmA]
   \<and> on_DELETE_times 3 (deletion_of ''x'') [bmB, bmA] = [bmB, bmA]
   \<and> on_DELETE (deletion_of ''a'') [bmB, bmA] = [bmB]
   \<and> on_DELETE_times 3 (deletion_of ''a'') [bmB, bmA] = [bmB]"
proof -
  have h: "old_id (deletion_of ''x'') = Some ''x''"
    by (simp add: deletion_of_def)
  have n: "''x'' \<notin> set (map id' [bmB, bmA])"
    by (simp add: bmA_def bmB_def)
  have x: "on_DELETE (deletion_of ''x'') [bmB, bmA] = [bmB, bmA]"
    using removeById_idempotent [OF h, of "[bmB, bmA]" 2] n by blast
  have x3: "on_DELETE_times 3 (deletion_of ''x'') [bmB, bmA] = [bmB, bmA]"
    using removeById_idempotent [OF h, of "[bmB, bmA]" 2] x by (simp add: numeral_3_eq_3)
  have a: "on_DELETE (deletion_of ''a'') [bmB, bmA] = [bmB]"
    by (simp add: on_DELETE_def deletion_of_def bmA_def bmB_def)
  have a3: "on_DELETE_times 3 (deletion_of ''a'') [bmB, bmA] = [bmB]"
    by (simp add: numeral_3_eq_3 on_DELETE_def deletion_of_def bmA_def bmB_def)
  show ?thesis using h n x x3 a a3 by simp
qed

text \<open>
  C9. The DELETE handler reads the identifier of the event and nothing else: two events
  with the same \<open>old.id\<close> give the same list and the same component state, whatever
  their other columns; and an event without an identifier leaves the list and the
  state as they are.
\<close>

theorem deletion_depends_on_id_only:
  "(old_id p = old_id q \<longrightarrow> on_DELETE p s = on_DELETE q s)
   \<and> (old_id p = None \<longrightarrow> on_DELETE p s = s)
   \<and> (old_id p = old_id q \<longrightarrow> on_change (DELETE p) st = on_change (DELETE q) st)
   \<and> (old_id p = None \<longrightarrow> on_change (DELETE p) st = st)"
  by (simp add: on_DELETE_def)

theorem deletion_depends_on_id_only_witness:
  "old_id (deletion_of ''a'') = old_id \<lparr>old_id = Some ''a'', old_user_id = Some ''u1'',
       old_title = Some ''Alpha'', old_url = None, old_created_at = Some 10\<rparr>
   \<and> on_DELETE (deletion_of ''a'') [bmB, bmA]
       = on_DELETE \<lparr>old_id = Some ''a'', old_user_id = Some ''u1'',
           old_title = Some ''Alpha'', old_url = None, old_created_at = Some 10\<rparr> [bmB, bmA]
   \<and> old_id \<lparr>old_id = None, old_user_id = Some ''u1'', old_title = None, old_url = None,
        old_created_at = None\<rparr> = None
   \<and> on_DELETE \<lparr>old_id = None, old_user_id = Some ''u1'', old_title = None, old_url = None,
        old_created_at = None\<rparr> [bmB, bmA] = [bmB, bmA]"
proof -
  let ?p = "deletion_of ''a''"
  let ?q = "\<lparr>old_id = Some ''a'', old_user_id = Some ''u1'',
       old_title = Some ''Alpha'', old_url = None, old_created_at = Some 10\<rparr>"
  let ?e = "\<lparr>old_id = None, old_user_id = Some ''u1'', old_title = None, old_url = None,
        old_created_at = None\<rparr>"
  have same: "old_id ?p = old_id ?q"
    by (simp add: deletion_of_def)
  have none: "old_id ?e = None"
    by simp
  have "on_DELETE ?p [bmB, bmA] = on_DELETE ?q [bmB, bmA]"
    using deletion_depends_on_id_only [of ?p ?q "[bmB, bmA]"] same by blast
  moreover have "on_DELETE ?e [bmB, bmA] = [bmB, bmA]"
    using deletion_depends_on_id_only [of ?e ?e "[bmB, bmA]"] none by blast
  ultimately show ?thesis using same none by simp
qed

section \<open>Merge-insert\<close>

lemma list_ex_id: "list_ex (\<lambda>b. id' b = i) s = (i \<in> set (map id' s))"
  by (induction s) auto

lemma on_INSERT_present: "id' r \<in> set (map id' s) \<Longrightarrow> on_INSERT r s = s"
  by (simp add: on_INSERT_def list_ex_id)

lemma on_INSERT_absent: "id' r \<notin> set (map id' s) \<Longrightarrow> on_INSERT r s = r # s"
  by (simp add: on_INSERT_def list_ex_id)

lemma on_INSERT_ids: "id' r \<in> set (map id' (on_INSERT r s))"
  by (cases "id' r \<in> set (map id' s)") (simp_all add: on_INSERT_present on_INSERT_absent)

lemma on_INSERT_distinct:
  "distinct (map id' s) \<Longrightarrow> distinct (map id' (on_INSERT r s))"
  by (cases "id' r \<in> set (map id' s)") (simp_all add: on_INSERT_present on_INSERT_absent)

lemma on_INSERTs_present:
  "i \<in> set (map id' s) \<Longrightarrow> \<forall>r\<in>set rs. id' r = i \<Longrightarrow> on_INSERTs rs s = s"
  by (induction rs) (simp_all add: on_INSERT_present)

lemma on_INSERTs_first:
  assumes "rs \<noteq> []" and "\<forall>r\<in>set rs. id' r = i"
  shows "on_INSERTs rs s = on_INSERT (hd rs) s"
proof (cases rs)
  case Nil
  with assms show ?thesis by simp
next
  case (Cons r rest)
  have "i \<in> set (map id' (on_INSERT r s))"
    using assms Cons on_INSERT_ids [of r s] by simp
  moreover have "\<forall>x\<in>set rest. id' x = i"
    using assms Cons by simp
  ultimately have "on_INSERTs rest (on_INSERT r s) = on_INSERT r s"
    by (rule on_INSERTs_present)
  with Cons show ?thesis by simp
qed

lemma one_entry_per_id:
  "distinct (map id' s) \<Longrightarrow> i \<in> set (map id' s) \<Longrightarrow>
     length (filter (\<lambda>b. id' b = i) s) = 1"
proof (induction s)
  case Nil
  then show ?case by simp
next
  case (Cons b s)
  show ?case
  proof (cases "id' b = i")
    case True
    then have "i \<notin> id' ` set s"
      using Cons.prems(1) by simp
    then have "filter (\<lambda>b. id' b = i) s = []"
      by (force simp: filter_empty_conv)
    with True show ?thesis by simp
  next
    case False
    with Cons show ?thesis by simp
  qed
qed

lemma on_INSERT_map_id:
  "id' r = id' r' \<Longrightarrow> map id' (on_INSERT r s) = map id' (on_INSERT r' s)"
  by (cases "id' r \<in> set (map id' s)") (simp_all add: on_INSERT_present on_INSERT_absent)

text \<open>
  C1, as the code has it. For every store and every non-empty sequence of merge-insert
  applications that carry the same identifier \<open>i\<close>, possibly with different payloads,
  the final store is what the first applied call alone produces. If \<open>i\<close> was absent,
  the first call's record is put in front of the initial store and is the only entry
  with \<open>i\<close>; if \<open>i\<close> was present, the store is unchanged. Unique identifiers stay
  unique, with exactly one entry for \<open>i\<close>. Reordering the calls never changes the
  identifiers in the store or their order, and gives the identical store whenever the
  first applied call is the same (so always when the calls carry one and the same
  record).
\<close>

theorem upsert_first_wins:
  assumes "rs \<noteq> []" and "\<forall>r\<in>set rs. id' r = i"
  shows "on_INSERTs rs s = on_INSERT (hd rs) s
    \<and> (i \<notin> set (map id' s) \<longrightarrow>
          on_INSERTs rs s = hd rs # s
          \<and> filter (\<lambda>b. id' b = i) (on_INSERTs rs s) = [hd rs])
    \<and> (i \<in> set (map id' s) \<longrightarrow> on_INSERTs rs s = s)
    \<and> (distinct (map id' s) \<longrightarrow>
          distinct (map id' (on_INSERTs rs s))
          \<and> length (filter (\<lambda>b. id' b = i) (on_INSERTs rs s)) = 1)
    \<and> (\<forall>rs'. mset rs' = mset rs \<longrightarrow>
          map id' (on_INSERTs rs' s) = map id' (on_INSERTs rs s))
    \<and> (\<forall>rs'. mset rs' = mset rs \<and> hd rs' = hd rs \<longrightarrow>
          on_INSERTs rs' s = on_INSERTs rs s)"
proof -
  have hd_id: "id' (hd rs) = i"
    using assms by simp
  have first: "on_INSERTs rs s = on_INSERT (hd rs) s"
    using assms by (rule on_INSERTs_first)
  have fresh: "i \<notin> set (map id' s) \<longrightarrow>
          on_INSERTs rs s = hd rs # s
          \<and> filter (\<lambda>b. id' b = i) (on_INSERTs rs s) = [hd rs]"
  proof
    assume n: "i \<notin> set (map id' s)"
    then have e: "on_INSERTs rs s = hd rs # s"
      using first hd_id by (simp add: on_INSERT_absent)
    have "filter (\<lambda>b. id' b = i) s = []"
      using n by (auto simp: filter_empty_conv)
    with e hd_id show "on_INSERTs rs s = hd rs # s
          \<and> filter (\<lambda>b. id' b = i) (on_INSERTs rs s) = [hd rs]"
      by simp
  qed
  have kept: "i \<in> set (map id' s) \<longrightarrow> on_INSERTs rs s = s"
    using first hd_id by (simp add: on_INSERT_present)
  have once: "distinct (map id' s) \<longrightarrow>
          distinct (map id' (on_INSERTs rs s))
          \<and> length (filter (\<lambda>b. id' b = i) (on_INSERTs rs s)) = 1"
  proof
    assume d: "distinct (map id' s)"
    then have d': "distinct (map id' (on_INSERTs rs s))"
      using first by (simp add: on_INSERT_distinct)
    have "i \<in> set (map id' (on_INSERTs rs s))"
      using first hd_id on_INSERT_ids [of "hd rs" s] by simp
    then have "length (filter (\<lambda>b. id' b = i) (on_INSERTs rs s)) = 1"
      using d' by (simp add: one_entry_per_id)
    with d' show "distinct (map id' (on_INSERTs rs s))
          \<and> length (filter (\<lambda>b. id' b = i) (on_INSERTs rs s)) = 1"
      by simp
  qed
  have perm: "on_INSERTs rs' s = on_INSERT (hd rs') s \<and> id' (hd rs') = i"
    if "mset rs' = mset rs" for rs'
  proof -
    have ne: "rs' \<noteq> []"
      using that assms(1) by auto
    have all: "\<forall>r\<in>set rs'. id' r = i"
      using that assms(2) mset_eq_setD by blast
    from ne all show ?thesis
      using on_INSERTs_first [of rs' i s] by simp
  qed
  have ids: "\<forall>rs'. mset rs' = mset rs \<longrightarrow>
          map id' (on_INSERTs rs' s) = map id' (on_INSERTs rs s)"
    using perm first hd_id on_INSERT_map_id by metis
  have same: "\<forall>rs'. mset rs' = mset rs \<and> hd rs' = hd rs \<longrightarrow>
          on_INSERTs rs' s = on_INSERTs rs s"
    using perm first by metis
  from first fresh kept once ids same show ?thesis
    by blast
qed


theorem upsert_first_wins_witness:
  "[bmZ1, bmZ2] \<noteq> [] \<and> id' bmZ1 = ''z'' \<and> id' bmZ2 = ''z''
   \<and> ''z'' \<notin> set (map id' [bmB, bmA]) \<and> distinct (map id' [bmB, bmA])
   \<and> on_INSERTs [bmZ1, bmZ2] [bmB, bmA] = [bmZ1, bmB, bmA]
   \<and> filter (\<lambda>b. id' b = ''z'') (on_INSERTs [bmZ1, bmZ2] [bmB, bmA]) = [bmZ1]
   \<and> distinct (map id' (on_INSERTs [bmZ1, bmZ2] [bmB, bmA]))
   \<and> mset [bmZ2, bmZ1] = mset [bmZ1, bmZ2]
   \<and> map id' (on_INSERTs [bmZ2, bmZ1] [bmB, bmA]) = [''z'', ''b'', ''a'']"
proof -
  have ne: "[bmZ1, bmZ2] \<noteq> []"
    by simp
  have ids: "\<forall>r\<in>set [bmZ1, bmZ2]. id' r = ''z''"
    by (simp add: bmZ1_def bmZ2_def)
  have fresh: "''z'' \<notin> set (map id' [bmB, bmA])"
    by (simp add: bmA_def bmB_def)
  have dist: "distinct (map id' [bmB, bmA])"
    by (simp add: bmA_def bmB_def)
  have perm: "mset [bmZ2, bmZ1] = mset [bmZ1, bmZ2]"
    by (simp add: add.commute)
  note w = upsert_first_wins [OF ne ids, of "[bmB, bmA]"]
  have "on_INSERTs [bmZ1, bmZ2] [bmB, bmA] = hd [bmZ1, bmZ2] # [bmB, bmA]"
    using w fresh by blast
  then have a: "on_INSERTs [bmZ1, bmZ2] [bmB, bmA] = [bmZ1, bmB, bmA]"
    by (simp only: list.sel)
  have "filter (\<lambda>b. id' b = ''z'') (on_INSERTs [bmZ1, bmZ2] [bmB, bmA]) = [hd [bmZ1, bmZ2]]"
    using w fresh by blast
  then have b: "filter (\<lambda>b. id' b = ''z'') (on_INSERTs [bmZ1, bmZ2] [bmB, bmA]) = [bmZ1]"
    by (simp only: list.sel)
  have c: "distinct (map id' (on_INSERTs [bmZ1, bmZ2] [bmB, bmA]))"
    using w dist by blast
  have "map id' (on_INSERTs [bmZ2, bmZ1] [bmB, bmA])
      = map id' (on_INSERTs [bmZ1, bmZ2] [bmB, bmA])"
    using w perm by blast
  then have d: "map id' (on_INSERTs [bmZ2, bmZ1] [bmB, bmA]) = [''z'', ''b'', ''a'']"
    by (simp only: a) (simp add: bmZ1_def bmA_def bmB_def)
  have z1: "id' bmZ1 = ''z''" and z2: "id' bmZ2 = ''z''"
    by (simp_all add: bmZ1_def bmZ2_def)
  from ne z1 z2 fresh dist perm a b c d show ?thesis
    by blast
qed

text \<open>
  The final store is not independent of the arrival order when the payloads differ:
  the two orders of \<open>bmZ1\<close> and \<open>bmZ2\<close> leave different stores. And a call on a store
  that holds the identifier already leaves the old content, not its own.
\<close>

theorem upsert_order_counterexample:
  "id' bmZ1 = ''z'' \<and> id' bmZ2 = ''z''
   \<and> mset [bmZ2, bmZ1] = mset [bmZ1, bmZ2]
   \<and> on_INSERTs [bmZ1, bmZ2] [] = [bmZ1]
   \<and> on_INSERTs [bmZ2, bmZ1] [] = [bmZ2]
   \<and> on_INSERTs [bmZ1, bmZ2] [] \<noteq> on_INSERTs [bmZ2, bmZ1] []
   \<and> on_INSERTs [bmZ2] [bmZ1] = [bmZ1]
   \<and> bmZ1 \<noteq> bmZ2"
  by (simp add: on_INSERT_def bmZ1_def bmZ2_def add.commute)

section \<open>Frame\<close>

lemma on_change_frame: "on_change e st = st\<lparr>bookmarks := bookmarks (on_change e st)\<rparr>"
  by (cases e) simp_all

text \<open>
  C10. An insertion returns the old list or the new record in front of it: the old
  list is a suffix of the result, so every entry that was there keeps its content and
  its place among the others. A removal keeps exactly the entries with another
  identifier, in their order (the result is a subsequence of the old list), and keeps
  everything when the event has no identifier. Neither handler touches a state cell
  other than the list.
\<close>

theorem merge_frame:
  "(on_INSERT r s = s \<or> on_INSERT r s = r # s)
   \<and> suffix s (on_INSERT r s)
   \<and> filter (\<lambda>b. id' b \<noteq> id' r) (on_INSERT r s) = filter (\<lambda>b. id' b \<noteq> id' r) s
   \<and> (old_id p = Some i \<longrightarrow>
        filter (\<lambda>b. id' b \<noteq> i) (on_DELETE p s) = filter (\<lambda>b. id' b \<noteq> i) s
        \<and> on_DELETE p s = filter (\<lambda>b. id' b \<noteq> i) s)
   \<and> (old_id p = None \<longrightarrow> on_DELETE p s = s)
   \<and> subseq (on_DELETE p s) s
   \<and> on_change e st = st\<lparr>bookmarks := bookmarks (on_change e st)\<rparr>"
proof -
  have ins: "on_INSERT r s = s \<or> on_INSERT r s = r # s"
    by (simp add: on_INSERT_def)
  then have suf: "suffix s (on_INSERT r s)"
    by (auto simp: suffix_Cons)
  have oth: "filter (\<lambda>b. id' b \<noteq> id' r) (on_INSERT r s) = filter (\<lambda>b. id' b \<noteq> id' r) s"
    using ins by auto
  have del: "old_id p = Some i \<longrightarrow>
        filter (\<lambda>b. id' b \<noteq> i) (on_DELETE p s) = filter (\<lambda>b. id' b \<noteq> i) s
        \<and> on_DELETE p s = filter (\<lambda>b. id' b \<noteq> i) s"
    by (simp add: on_DELETE_def)
  have none: "old_id p = None \<longrightarrow> on_DELETE p s = s"
    by (simp add: on_DELETE_def)
  have sub: "subseq (on_DELETE p s) s"
    by (simp add: on_DELETE_def)
  from ins suf oth del none sub on_change_frame [of e st] show ?thesis
    by blast
qed

theorem merge_frame_witness:
  "old_id (deletion_of ''b'') = Some ''b''
   \<and> on_INSERT bmC [bmB, bmA] = [bmC, bmB, bmA]
   \<and> on_INSERT bmB [bmB, bmA] = [bmB, bmA]
   \<and> suffix [bmB, bmA] (on_INSERT bmC [bmB, bmA])
   \<and> on_DELETE (deletion_of ''b'') [bmC, bmB, bmA] = [bmC, bmA]
   \<and> filter (\<lambda>b. id' b \<noteq> ''b'') (on_DELETE (deletion_of ''b'') [bmC, bmB, bmA])
       = filter (\<lambda>b. id' b \<noteq> ''b'') [bmC, bmB, bmA]
   \<and> subseq (on_DELETE (deletion_of ''b'') [bmC, bmB, bmA]) [bmC, bmB, bmA]"
proof -
  have h: "old_id (deletion_of ''b'') = Some ''b''"
    by (simp add: deletion_of_def)
  note w = merge_frame [where r = bmC and s = "[bmB, bmA]"]
  note v = merge_frame [where p = "deletion_of ''b''" and s = "[bmC, bmB, bmA]" and i = "''b''"]
  have a: "on_INSERT bmC [bmB, bmA] = [bmC, bmB, bmA]"
    by (simp add: on_INSERT_def bmA_def bmB_def bmC_def)
  have b: "on_INSERT bmB [bmB, bmA] = [bmB, bmA]"
    by (simp add: on_INSERT_def)
  have c: "suffix [bmB, bmA] (on_INSERT bmC [bmB, bmA])"
    using w by blast
  have d: "on_DELETE (deletion_of ''b'') [bmC, bmB, bmA] = filter (\<lambda>b. id' b \<noteq> ''b'') [bmC, bmB, bmA]"
    using v h by blast
  then have d': "on_DELETE (deletion_of ''b'') [bmC, bmB, bmA] = [bmC, bmA]"
    by (simp add: bmA_def bmB_def bmC_def)
  have e: "filter (\<lambda>b. id' b \<noteq> ''b'') (on_DELETE (deletion_of ''b'') [bmC, bmB, bmA])
       = filter (\<lambda>b. id' b \<noteq> ''b'') [bmC, bmB, bmA]"
    using v h by blast
  have f: "subseq (on_DELETE (deletion_of ''b'') [bmC, bmB, bmA]) [bmC, bmB, bmA]"
    using v by blast
  from h a b c d' e f show ?thesis
    by blast
qed

section \<open>Search\<close>

lemma startsWith_prefix: "startsWith s p = prefix p s"
  by (induction s p rule: startsWith.induct) auto

lemma includes_str_sublist: "includes_str s q = sublist q s"
  by (induction s) (auto simp: startsWith_prefix sublist_Cons_right)

lemma sublist_map_iff:
  "sublist (map f q) (map f s) = (\<exists>pre m post. s = pre @ m @ post \<and> map f m = map f q)"
proof
  assume "sublist (map f q) (map f s)"
  then obtain ps ss where "map f s = ps @ map f q @ ss"
    by (auto simp: sublist_def)
  then obtain pre rest where s: "s = pre @ rest" and rest: "map f rest = map f q @ ss"
    by (metis map_eq_append_conv)
  from rest obtain m post where "rest = m @ post" and "map f m = map f q"
    by (metis map_eq_append_conv)
  with s show "\<exists>pre m post. s = pre @ m @ post \<and> map f m = map f q"
    by blast
next
  assume "\<exists>pre m post. s = pre @ m @ post \<and> map f m = map f q"
  then obtain pre m post where "s = pre @ m @ post" and "map f m = map f q"
    by blast
  then have "map f s = map f pre @ map f q @ map f post"
    by simp
  then show "sublist (map f q) (map f s)"
    by (auto simp: sublist_def)
qed

lemma includes_str_empty: "includes_str s []"
  by (simp add: includes_str_sublist)

lemma filteredBookmarks_empty_query:
  "toLowerCase [] = [] \<Longrightarrow> filteredBookmarks toLowerCase [] bs = bs"
  by (simp add: filteredBookmarks_def includes_str_empty)

lemma contains_ci_charwise:
  assumes "\<forall>s. toLowerCase s = map f s"
  shows "contains_ci toLowerCase s q = sublist (toLowerCase q) (toLowerCase s)"
proof -
  have "contains_ci toLowerCase s q
      = (\<exists>pre m post. s = pre @ m @ post \<and> map f m = map f q)"
    using assms by (simp add: contains_ci_def)
  also have "\<dots> = sublist (map f q) (map f s)"
    by (simp add: sublist_map_iff)
  finally show ?thesis
    using assms by simp
qed

text \<open>
  C5, as the code has it. For every case conversion of the platform: with the empty
  query (which lower-cases to itself) the view is the whole list, in the list's own
  order. With a query \<open>q\<close> the view is the list filtered to the records whose
  lower-cased title or lower-cased address contains the lower-cased \<open>q\<close> as a
  substring; where the conversion works character by character this is the spec's
  case-insensitive substring. The view is a subsequence of the list, so the records
  keep their relative order, and it is newest first whenever the list is.
\<close>

theorem filteredBookmarks_subsequence:
  "(toLowerCase [] = [] \<longrightarrow> filteredBookmarks toLowerCase [] bs = bs)
   \<and> filteredBookmarks toLowerCase q bs
       = filter (\<lambda>b. sublist (toLowerCase q) (toLowerCase (title b))
                   \<or> sublist (toLowerCase q) (toLowerCase (url b))) bs
   \<and> ((\<forall>s. toLowerCase s = map f s) \<longrightarrow>
        filteredBookmarks toLowerCase q bs
          = filter (\<lambda>b. contains_ci toLowerCase (title b) q
                      \<or> contains_ci toLowerCase (url b) q) bs)
   \<and> subseq (filteredBookmarks toLowerCase q bs) bs
   \<and> (newest_first bs \<longrightarrow> newest_first (filteredBookmarks toLowerCase q bs))
   \<and> filteredView toLowerCase st = filteredBookmarks toLowerCase (search st) (bookmarks st)"
proof -
  have all: "toLowerCase [] = [] \<longrightarrow> filteredBookmarks toLowerCase [] bs = bs"
    by (simp add: filteredBookmarks_empty_query)
  have match: "filteredBookmarks toLowerCase q bs
       = filter (\<lambda>b. sublist (toLowerCase q) (toLowerCase (title b))
                   \<or> sublist (toLowerCase q) (toLowerCase (url b))) bs"
    by (simp add: filteredBookmarks_def includes_str_sublist)
  have ci: "(\<forall>s. toLowerCase s = map f s) \<longrightarrow>
        filteredBookmarks toLowerCase q bs
          = filter (\<lambda>b. contains_ci toLowerCase (title b) q
                      \<or> contains_ci toLowerCase (url b) q) bs"
  proof
    assume "\<forall>s. toLowerCase s = map f s"
    then have "contains_ci toLowerCase s q = sublist (toLowerCase q) (toLowerCase s)" for s
      by (rule contains_ci_charwise)
    then show "filteredBookmarks toLowerCase q bs
          = filter (\<lambda>b. contains_ci toLowerCase (title b) q
                      \<or> contains_ci toLowerCase (url b) q) bs"
      by (simp only: match)
  qed
  have sub: "subseq (filteredBookmarks toLowerCase q bs) bs"
    by (simp add: filteredBookmarks_def)
  have ord: "newest_first bs \<longrightarrow> newest_first (filteredBookmarks toLowerCase q bs)"
    by (simp add: filteredBookmarks_def newest_first_def sorted_wrt_filter)
  have view: "filteredView toLowerCase st
      = filteredBookmarks toLowerCase (search st) (bookmarks st)"
    by (simp add: filteredView_def)
  from all match ci sub ord view show ?thesis
    by blast
qed

theorem filteredBookmarks_subsequence_witness:
  "sample_toLowerCase [] = []
   \<and> newest_first [bmC, bmB, bmA]
   \<and> newest_first (filteredBookmarks sample_toLowerCase ''A.EX'' [bmC, bmB, bmA])
   \<and> filteredBookmarks sample_toLowerCase [] [bmC, bmB, bmA] = [bmC, bmB, bmA]
   \<and> filteredBookmarks sample_toLowerCase ''A.EX'' [bmC, bmB, bmA]
       = filter (\<lambda>b. contains_ci sample_toLowerCase (title b) ''A.EX''
                   \<or> contains_ci sample_toLowerCase (url b) ''A.EX'') [bmC, bmB, bmA]
   \<and> filteredBookmarks sample_toLowerCase ''A.EX'' [bmC, bmB, bmA] = [bmA]
   \<and> filteredBookmarks sample_toLowerCase ''EXAMPLE'' [bmC, bmB, bmA] = [bmC, bmB, bmA]
   \<and> filteredBookmarks sample_toLowerCase ''eta'' [bmC, bmB, bmA] = [bmB]
   \<and> filteredBookmarks sample_toLowerCase ''zzz'' [bmC, bmB, bmA] = []
   \<and> filteredBookmarks sample_toLowerCase [CHR 0xE9] [bmEcole, bmA] = [bmEcole]"
proof -
  have l: "sample_toLowerCase [] = []"
    by (simp add: sample_toLowerCase_def)
  have m: "\<forall>s. sample_toLowerCase s = map sample_lower_char s"
    by (simp add: sample_toLowerCase_def)
  have n: "newest_first [bmC, bmB, bmA]"
    by (simp add: newest_first_def bmA_def bmB_def bmC_def)
  note w = filteredBookmarks_subsequence [where toLowerCase = sample_toLowerCase
      and f = sample_lower_char and q = "''A.EX''" and bs = "[bmC, bmB, bmA]"]
  have n': "newest_first (filteredBookmarks sample_toLowerCase ''A.EX'' [bmC, bmB, bmA])"
    using w n by blast
  have e: "filteredBookmarks sample_toLowerCase [] [bmC, bmB, bmA] = [bmC, bmB, bmA]"
    using w l by blast
  have ci: "filteredBookmarks sample_toLowerCase ''A.EX'' [bmC, bmB, bmA]
       = filter (\<lambda>b. contains_ci sample_toLowerCase (title b) ''A.EX''
                   \<or> contains_ci sample_toLowerCase (url b) ''A.EX'') [bmC, bmB, bmA]"
    using w m by blast
  have a: "filteredBookmarks sample_toLowerCase ''A.EX'' [bmC, bmB, bmA] = [bmA]"
    by code_simp
  have b: "filteredBookmarks sample_toLowerCase ''EXAMPLE'' [bmC, bmB, bmA] = [bmC, bmB, bmA]"
    by code_simp
  have c: "filteredBookmarks sample_toLowerCase ''eta'' [bmC, bmB, bmA] = [bmB]"
    by code_simp
  have d: "filteredBookmarks sample_toLowerCase ''zzz'' [bmC, bmB, bmA] = []"
    by code_simp
  have ec: "filteredBookmarks sample_toLowerCase [CHR 0xE9] [bmEcole, bmA] = [bmEcole]"
    by code_simp
  from l n n' e ci a b c d ec show ?thesis
    by blast
qed

text \<open>
  The empty-query view is not always in creation-descending order: after the insertion
  event for the older record A reaches the list that holds B, the view is A, B.
\<close>

theorem empty_query_order_counterexample:
  "filteredBookmarks sample_toLowerCase [] (on_INSERT bmA [bmB]) = [bmA, bmB]
   \<and> created_at bmA < created_at bmB
   \<and> \<not> newest_first (filteredBookmarks sample_toLowerCase [] (on_INSERT bmA [bmB]))"
  by (simp add: newest_first_def on_INSERT_def filteredBookmarks_def sample_toLowerCase_def
      bmA_def bmB_def)

section \<open>Display order\<close>

lemma newest_first_order: "newest_first (order_created_at_desc rows)"
proof -
  have "sorted (map created_at (sort_key created_at rows))"
    by simp
  then have "sorted_wrt (\<lambda>a b. created_at a \<le> created_at b) (sort_key created_at rows)"
    by (simp add: sorted_wrt_map)
  then show ?thesis
    by (simp add: newest_first_def order_created_at_desc_def sorted_wrt_rev)
qed

lemma newest_first_Cons:
  "newest_first (r # s) = ((\<forall>b\<in>set s. created_at b \<le> created_at r) \<and> newest_first s)"
  by (simp add: newest_first_def)

lemma newest_first_on_DELETE: "newest_first s \<Longrightarrow> newest_first (on_DELETE p s)"
  by (simp add: newest_first_def on_DELETE_def sorted_wrt_filter)

lemma on_INSERT_cases: "on_INSERT r s = (if id' r \<in> set (map id' s) then s else r # s)"
  by (induction s) (auto simp: on_INSERT_def)

text \<open>
  C2, as the code has it. The component starts from the snapshot the page read, which
  holds the caller's rows ordered newest first (or nothing when the query failed). An
  insertion of an identifier that is not in the list puts the record at the head,
  whatever its timestamp: the list is not sorted again. So the list stays newest
  first after an insertion when the record is not older than any entry, and it stays
  newest first after every removal. In the scenario (A with timestamp 10 and B with
  20 in the table, then C with 30 inserted) the unfiltered view is C, B, A.
\<close>

theorem newest_first_maintained:
  "newest_first (bookmarks (DashboardClient (initialBookmarks_of (Some (select_bookmarks uid rows)))))
   \<and> newest_first (bookmarks (DashboardClient (initialBookmarks_of None)))
   \<and> set (select_bookmarks uid rows) = {r \<in> set rows. user_id r = uid}
   \<and> (id' r \<notin> set (map id' s) \<longrightarrow> on_INSERT r s = r # s)
   \<and> (newest_first s \<and> (\<forall>b\<in>set s. created_at b \<le> created_at r)
        \<longrightarrow> newest_first (on_INSERT r s))
   \<and> (newest_first s \<longrightarrow> newest_first (on_DELETE p s))
   \<and> (toLowerCase [] = [] \<longrightarrow>
        filteredView toLowerCase (on_change (INSERT bmC)
          (DashboardClient (initialBookmarks_of (Some (select_bookmarks ''u1'' [bmA, bmB])))))
        = [bmC, bmB, bmA])"
proof -
  have init: "newest_first (bookmarks (DashboardClient
      (initialBookmarks_of (Some (select_bookmarks uid rows)))))"
    by (simp add: DashboardClient_def initialBookmarks_of_def select_bookmarks_def
        newest_first_order)
  have init0: "newest_first (bookmarks (DashboardClient (initialBookmarks_of None)))"
    by (simp add: DashboardClient_def initialBookmarks_of_def newest_first_def)
  have rows: "set (select_bookmarks uid rows) = {r \<in> set rows. user_id r = uid}"
    by (simp add: select_bookmarks_def order_created_at_desc_def)
  have front: "id' r \<notin> set (map id' s) \<longrightarrow> on_INSERT r s = r # s"
    by (simp add: on_INSERT_cases)
  have ins: "newest_first s \<and> (\<forall>b\<in>set s. created_at b \<le> created_at r)
        \<longrightarrow> newest_first (on_INSERT r s)"
    by (simp add: on_INSERT_cases newest_first_Cons)
  have del: "newest_first s \<longrightarrow> newest_first (on_DELETE p s)"
    by (simp add: newest_first_on_DELETE)
  have store: "on_change (INSERT bmC)
        (DashboardClient (initialBookmarks_of (Some (select_bookmarks ''u1'' [bmA, bmB]))))
      = DashboardClient [bmC, bmB, bmA]"
    by code_simp
  have scen: "toLowerCase [] = [] \<longrightarrow>
        filteredView toLowerCase (on_change (INSERT bmC)
          (DashboardClient (initialBookmarks_of (Some (select_bookmarks ''u1'' [bmA, bmB])))))
        = [bmC, bmB, bmA]"
    by (simp only: store)
      (simp add: filteredView_def DashboardClient_def filteredBookmarks_empty_query)
  from init init0 rows front ins del scen show ?thesis
    by blast
qed

theorem newest_first_maintained_witness:
  "newest_first [bmB, bmA] \<and> created_at bmB \<le> created_at bmC
   \<and> created_at bmA \<le> created_at bmC
   \<and> id' bmC \<notin> set (map id' [bmB, bmA])
   \<and> on_INSERT bmC [bmB, bmA] = [bmC, bmB, bmA]
   \<and> newest_first (on_INSERT bmC [bmB, bmA])
   \<and> newest_first (on_DELETE (deletion_of ''b'') [bmB, bmA])
   \<and> sample_toLowerCase [] = []
   \<and> filteredView sample_toLowerCase (on_change (INSERT bmC)
        (DashboardClient (initialBookmarks_of (Some (select_bookmarks ''u1'' [bmA, bmB])))))
      = [bmC, bmB, bmA]"
proof -
  have n: "newest_first [bmB, bmA]"
    by (simp add: newest_first_def bmA_def bmB_def)
  have le: "\<forall>b\<in>set [bmB, bmA]. created_at b \<le> created_at bmC"
    by (simp add: bmA_def bmB_def bmC_def)
  have fresh: "id' bmC \<notin> set (map id' [bmB, bmA])"
    by (simp add: bmA_def bmB_def bmC_def)
  have l: "sample_toLowerCase [] = []"
    by (simp add: sample_toLowerCase_def)
  note w = newest_first_maintained
    [where r = bmC and s = "[bmB, bmA]" and p = "deletion_of ''b''"
      and toLowerCase = sample_toLowerCase]
  have v: "filteredView sample_toLowerCase (on_change (INSERT bmC)
        (DashboardClient (initialBookmarks_of (Some (select_bookmarks ''u1'' [bmA, bmB])))))
      = [bmC, bmB, bmA]"
    using w l by blast
  have a: "on_INSERT bmC [bmB, bmA] = [bmC, bmB, bmA]"
    using w fresh by blast
  have b: "newest_first (on_INSERT bmC [bmB, bmA])"
    using w n le by blast
  have c: "newest_first (on_DELETE (deletion_of ''b'') [bmB, bmA])"
    using w n by blast
  from n le fresh a b c l v show ?thesis
    by simp
qed

text \<open>
  The list is not always newest first: an insertion event for the older record A that
  arrives after B is in the list puts A in front of B, and the view shows it so.
\<close>

theorem insert_not_resorted_counterexample:
  "newest_first [bmB]
   \<and> on_INSERT bmA [bmB] = [bmA, bmB]
   \<and> created_at bmA < created_at bmB
   \<and> \<not> newest_first (on_INSERT bmA [bmB])
   \<and> \<not> newest_first
        (filteredView sample_toLowerCase (on_change (INSERT bmA) (DashboardClient [bmB])))"
  by (simp add: newest_first_def on_INSERT_def filteredView_def filteredBookmarks_def
      DashboardClient_def sample_toLowerCase_def bmA_def bmB_def)

section \<open>Adding a bookmark: validation\<close>

lemma startsWith_append: "startsWith (p @ s) p"
  by (induction p) simp_all

lemma finalUrl_of_scheme:
  "startsWith (finalUrl_of u) ''http://'' \<or> startsWith (finalUrl_of u) ''https://''"
proof (cases "startsWith (trim u) ''http://'' \<or> startsWith (trim u) ''https://''")
  case True
  then show ?thesis
    by (auto simp: finalUrl_of_def Let_def)
next
  case False
  then have "finalUrl_of u = ''https://'' @ trim u"
    by (simp add: finalUrl_of_def Let_def)
  then show ?thesis
    using startsWith_append [of "''https://''" "trim u"] by simp
qed

lemma finalUrl_of_not_javascript: "finalUrl_of u \<noteq> ''javascript:alert(1)''"
  using finalUrl_of_scheme [of u] by auto

lemma submit_None_iff:
  "(snd (handleAddBookmark_submit newURL uid st) = None)
     = (trim (title_input st) = [] \<or> \<not> isValidUrl newURL (finalUrl_of (url_input st)))"
  by (simp add: handleAddBookmark_submit_def Let_def)

lemma submit_rejects:
  "snd (handleAddBookmark_submit newURL uid st) = None \<Longrightarrow>
     handleAddBookmark_submit newURL uid st = (showToast ''Please enter a title'' Error st, None)
     \<or> handleAddBookmark_submit newURL uid st
         = (showToast ''Please enter a valid URL'' Error st, None)"
  by (auto simp: handleAddBookmark_submit_def Let_def split: if_splits)

lemma submit_accepts:
  "snd (handleAddBookmark_submit newURL uid st) \<noteq> None \<Longrightarrow>
     handleAddBookmark_submit newURL uid st
       = (st\<lparr>isAdding := True\<rparr>,
          Some (Insert (trim (title_input st)) (finalUrl_of (url_input st)) uid))"
  by (auto simp: handleAddBookmark_submit_def Let_def split: if_splits)

text \<open>
  C4. The add handler ends in a validation failure (an error notification, the state
  otherwise untouched, no request to the remote store) exactly when the title is empty
  after trimming or the normalised address is not accepted by \<open>isValidUrl\<close>; in every
  other case it sends exactly one insert, with the trimmed title and the normalised
  address. \<open>javascript:alert(1)\<close> is normalised to \<open>https://javascript:alert(1)\<close>;
  the platform's parser rejects that string, and then nothing is sent; and whatever
  the parser does, an address that is sent starts with \<open>http://\<close> or \<open>https://\<close>,
  so \<open>javascript:alert(1)\<close> itself never is.
\<close>

theorem create_validation:
  "((handleAddBookmark newURL supabase uid pending st
        = (showToast ''Please enter a title'' Error st, [])
      \<or> handleAddBookmark newURL supabase uid pending st
        = (showToast ''Please enter a valid URL'' Error st, []))
      = (trim (title_input st) = [] \<or> \<not> isValidUrl newURL (finalUrl_of (url_input st))))
   \<and> ((snd (handleAddBookmark newURL supabase uid pending st) = [])
      = (trim (title_input st) = [] \<or> \<not> isValidUrl newURL (finalUrl_of (url_input st))))
   \<and> (trim (title_input st) \<noteq> [] \<and> isValidUrl newURL (finalUrl_of (url_input st)) \<longrightarrow>
        snd (handleAddBookmark newURL supabase uid pending st)
          = [Insert (trim (title_input st)) (finalUrl_of (url_input st)) uid])
   \<and> finalUrl_of ''javascript:alert(1)'' = ''https://javascript:alert(1)''
   \<and> (newURL ''https://javascript:alert(1)'' = None \<and> url_input st = ''javascript:alert(1)''
        \<longrightarrow> snd (handleAddBookmark newURL supabase uid pending st) = [])
   \<and> (\<forall>rq\<in>set (snd (handleAddBookmark newURL supabase uid pending st)).
        insert_url rq \<noteq> ''javascript:alert(1)''
        \<and> (startsWith (insert_url rq) ''http://'' \<or> startsWith (insert_url rq) ''https://''))"
proof -
  let ?bad = "trim (title_input st) = [] \<or> \<not> isValidUrl newURL (finalUrl_of (url_input st))"
  let ?run = "handleAddBookmark newURL supabase uid pending st"
  let ?failed = "?run = (showToast ''Please enter a title'' Error st, [])
      \<or> ?run = (showToast ''Please enter a valid URL'' Error st, [])"
  have bad: "?failed" if "?bad"
  proof -
    from that have "snd (handleAddBookmark_submit newURL uid st) = None"
      by (simp add: submit_None_iff)
    then have "handleAddBookmark_submit newURL uid st
          = (showToast ''Please enter a title'' Error st, None)
        \<or> handleAddBookmark_submit newURL uid st
          = (showToast ''Please enter a valid URL'' Error st, None)"
      by (rule submit_rejects)
    then show ?thesis
      by (auto simp: handleAddBookmark_def)
  qed
  have good: "?run = (handleAddBookmark_settle
          (supabase (Insert (trim (title_input st)) (finalUrl_of (url_input st)) uid))
          (on_changes pending (st\<lparr>isAdding := True\<rparr>)),
        [Insert (trim (title_input st)) (finalUrl_of (url_input st)) uid])"
    if "\<not> ?bad"
  proof -
    from that have "snd (handleAddBookmark_submit newURL uid st) \<noteq> None"
      by (simp add: submit_None_iff)
    then show ?thesis
      by (simp add: handleAddBookmark_def submit_accepts)
  qed
  have c1: "?failed = ?bad"
  proof
    assume ?failed
    then have "snd ?run = []" by auto
    then show ?bad using good by fastforce
  next
    assume ?bad
    then show ?failed by (rule bad)
  qed
  have c2: "(snd ?run = []) = ?bad"
  proof
    assume "snd ?run = []"
    then show ?bad using good by fastforce
  next
    assume ?bad
    then have ?failed by (rule bad)
    then show "snd ?run = []" by auto
  qed
  have c3: "trim (title_input st) \<noteq> [] \<and> isValidUrl newURL (finalUrl_of (url_input st)) \<longrightarrow>
        snd ?run = [Insert (trim (title_input st)) (finalUrl_of (url_input st)) uid]"
    using good by simp
  have c4: "finalUrl_of ''javascript:alert(1)'' = ''https://javascript:alert(1)''"
    by (simp add: finalUrl_of_def trim_def isWhiteSpace_def)
  have c5: "newURL ''https://javascript:alert(1)'' = None \<and> url_input st = ''javascript:alert(1)''
        \<longrightarrow> snd ?run = []"
  proof
    assume a: "newURL ''https://javascript:alert(1)'' = None \<and> url_input st = ''javascript:alert(1)''"
    then have "\<not> isValidUrl newURL (finalUrl_of (url_input st))"
      by (simp only: c4) (simp add: isValidUrl_def)
    then show "snd ?run = []"
      using c2 by blast
  qed
  have c6: "\<forall>rq\<in>set (snd ?run). insert_url rq \<noteq> ''javascript:alert(1)''
        \<and> (startsWith (insert_url rq) ''http://'' \<or> startsWith (insert_url rq) ''https://'')"
  proof (cases "?bad")
    case True
    then have "snd ?run = []"
      using c2 by blast
    then show ?thesis by simp
  next
    case False
    then have "snd ?run = [Insert (trim (title_input st)) (finalUrl_of (url_input st)) uid]"
      using good by simp
    then show ?thesis
      using finalUrl_of_not_javascript [of "url_input st"] finalUrl_of_scheme [of "url_input st"]
      by simp
  qed
  from c1 c2 c3 c4 c5 c6 show ?thesis
    by blast
qed

theorem create_validation_witness:
  "sample_newURL ''https://javascript:alert(1)'' = None
   \<and> url_input (sample_form ''Example'' ''javascript:alert(1)'') = ''javascript:alert(1)''
   \<and> snd (handleAddBookmark sample_newURL remote_ok ''u1'' []
        (sample_form ''Example'' ''javascript:alert(1)'')) = []
   \<and> handleAddBookmark sample_newURL remote_ok ''u1'' []
        (sample_form ''Example'' ''javascript:alert(1)'')
      = (showToast ''Please enter a valid URL'' Error
           (sample_form ''Example'' ''javascript:alert(1)''), [])
   \<and> trim (title_input (sample_form '' Example '' '' example.com'')) \<noteq> []
   \<and> isValidUrl sample_newURL (finalUrl_of (url_input (sample_form '' Example '' '' example.com'')))
   \<and> snd (handleAddBookmark sample_newURL remote_ok ''u1'' []
        (sample_form '' Example '' '' example.com''))
      = [Insert ''Example'' ''https://example.com'' ''u1'']
   \<and> handleAddBookmark sample_newURL remote_ok ''u1'' [] (sample_form ''  '' ''example.com'')
      = (showToast ''Please enter a title'' Error (sample_form ''  '' ''example.com''), [])"
proof -
  let ?js = "sample_form ''Example'' ''javascript:alert(1)''"
  let ?ok = "sample_form '' Example '' '' example.com''"
  let ?blank = "sample_form ''  '' ''example.com''"
  have rej: "sample_newURL ''https://javascript:alert(1)'' = None"
    by (simp add: sample_newURL_def)
  have url: "url_input ?js = ''javascript:alert(1)''"
    by (simp add: sample_form_def)
  have title_js: "trim (title_input ?js) \<noteq> []"
    by (simp add: sample_form_def trim_def isWhiteSpace_def)
  note w = create_validation [where newURL = sample_newURL and supabase = remote_ok
      and uid = "''u1''" and pending = "[]"]
  have a0: "snd (handleAddBookmark sample_newURL remote_ok ''u1'' [] ?js) = []"
    using w [of ?js] rej url by blast
  have fj: "finalUrl_of (url_input ?js) = ''https://javascript:alert(1)''"
    using w [of ?js] url by simp
  have a: "handleAddBookmark sample_newURL remote_ok ''u1'' [] ?js
        = (showToast ''Please enter a valid URL'' Error ?js, [])"
    using title_js
    by (simp add: handleAddBookmark_def handleAddBookmark_submit_def Let_def fj
        isValidUrl_def sample_newURL_def)
  have t: "trim (title_input ?ok) = ''Example''"
    by (simp add: sample_form_def trim_def isWhiteSpace_def)
  have f: "finalUrl_of (url_input ?ok) = ''https://example.com''"
    by (simp add: sample_form_def finalUrl_of_def trim_def isWhiteSpace_def)
  have v: "isValidUrl sample_newURL (finalUrl_of (url_input ?ok))"
    by (simp only: f) (simp add: isValidUrl_def sample_newURL_def)
  have t': "trim (title_input ?ok) \<noteq> []"
    by (simp add: t)
  have "snd (handleAddBookmark sample_newURL remote_ok ''u1'' [] ?ok)
      = [Insert (trim (title_input ?ok)) (finalUrl_of (url_input ?ok)) ''u1'']"
    using w [of ?ok] t' v by blast
  then have b: "snd (handleAddBookmark sample_newURL remote_ok ''u1'' [] ?ok)
      = [Insert ''Example'' ''https://example.com'' ''u1'']"
    by (simp only: t f)
  have c: "handleAddBookmark sample_newURL remote_ok ''u1'' [] ?blank
      = (showToast ''Please enter a title'' Error ?blank, [])"
    by (simp add: handleAddBookmark_def handleAddBookmark_submit_def sample_form_def
        trim_def isWhiteSpace_def)
  from rej url a0 a t' v b c show ?thesis
    by blast
qed

section \<open>Remote failures and successes\<close>

lemma on_change_isAdding:
  "on_change e (st\<lparr>isAdding := b\<rparr>) = (on_change e st)\<lparr>isAdding := b\<rparr>"
  by (cases e) simp_all

lemma on_changes_isAdding:
  "on_changes es (st\<lparr>isAdding := b\<rparr>) = (on_changes es st)\<lparr>isAdding := b\<rparr>"
  by (induction es arbitrary: st) (simp_all add: on_change_isAdding)

lemma handleAddBookmark_valid:
  assumes "trim (title_input st) \<noteq> []"
    and "isValidUrl newURL (finalUrl_of (url_input st))"
  shows "handleAddBookmark newURL supabase uid pending st
    = (handleAddBookmark_settle
         (supabase (Insert (trim (title_input st)) (finalUrl_of (url_input st)) uid))
         ((on_changes pending st)\<lparr>isAdding := True\<rparr>),
       [Insert (trim (title_input st)) (finalUrl_of (url_input st)) uid])"
  using assms
  by (simp add: handleAddBookmark_def handleAddBookmark_submit_def Let_def on_changes_isAdding)

lemma handleAddBookmark_keeps_list:
  "bookmarks (fst (handleAddBookmark newURL supabase uid [] st)) = bookmarks st"
  by (simp add: handleAddBookmark_def handleAddBookmark_submit_def handleAddBookmark_settle_def
      showToast_def Let_def split: option.splits)

text \<open>
  C7. When the insert fails, the handler sends that one request and nothing more (no
  retry), and the state it leaves is the state the push events handled meanwhile
  produced, with the notification \<open>Failed to add bookmark\<close> and \<open>isAdding\<close> reset:
  the list is the list those events left, and with no such event it is the list from
  before the call. The same holds for a failed delete, with the notification
  \<open>Failed to delete bookmark\<close>. The part of either handler that runs after the
  failure never writes the list.
\<close>

theorem persistence_error_leaves_list:
  "(trim (title_input st) \<noteq> [] \<and> isValidUrl newURL (finalUrl_of (url_input st))
     \<and> supabase (Insert (trim (title_input st)) (finalUrl_of (url_input st)) uid) = Some err
     \<longrightarrow> handleAddBookmark newURL supabase uid pending st
           = ((on_changes pending st)
                \<lparr>toast := Some (''Failed to add bookmark'', Error), isAdding := False\<rparr>,
              [Insert (trim (title_input st)) (finalUrl_of (url_input st)) uid])
         \<and> bookmarks (fst (handleAddBookmark newURL supabase uid pending st))
           = bookmarks (on_changes pending st)
         \<and> bookmarks (fst (handleAddBookmark newURL supabase uid [] st)) = bookmarks st)
   \<and> (supabase (Delete_eq_id i) = Some err
     \<longrightarrow> handleDeleteBookmark supabase i pending st
           = ((on_changes pending st)\<lparr>toast := Some (''Failed to delete bookmark'', Error)\<rparr>,
              [Delete_eq_id i])
         \<and> bookmarks (fst (handleDeleteBookmark supabase i pending st))
           = bookmarks (on_changes pending st)
         \<and> bookmarks (fst (handleDeleteBookmark supabase i [] st)) = bookmarks st)
   \<and> bookmarks (handleAddBookmark_settle (Some err) st) = bookmarks st
   \<and> bookmarks (handleDeleteBookmark_settle (Some err) st) = bookmarks st"
proof -
  have add: "trim (title_input st) \<noteq> [] \<and> isValidUrl newURL (finalUrl_of (url_input st))
     \<and> supabase (Insert (trim (title_input st)) (finalUrl_of (url_input st)) uid) = Some err
     \<longrightarrow> handleAddBookmark newURL supabase uid pending st
           = ((on_changes pending st)
                \<lparr>toast := Some (''Failed to add bookmark'', Error), isAdding := False\<rparr>,
              [Insert (trim (title_input st)) (finalUrl_of (url_input st)) uid])
         \<and> bookmarks (fst (handleAddBookmark newURL supabase uid pending st))
           = bookmarks (on_changes pending st)
         \<and> bookmarks (fst (handleAddBookmark newURL supabase uid [] st)) = bookmarks st"
    by (simp add: handleAddBookmark_valid handleAddBookmark_settle_def showToast_def)
  have del: "supabase (Delete_eq_id i) = Some err
     \<longrightarrow> handleDeleteBookmark supabase i pending st
           = ((on_changes pending st)\<lparr>toast := Some (''Failed to delete bookmark'', Error)\<rparr>,
              [Delete_eq_id i])
         \<and> bookmarks (fst (handleDeleteBookmark supabase i pending st))
           = bookmarks (on_changes pending st)
         \<and> bookmarks (fst (handleDeleteBookmark supabase i [] st)) = bookmarks st"
    by (simp add: handleDeleteBookmark_def handleDeleteBookmark_settle_def showToast_def)
  have s1: "bookmarks (handleAddBookmark_settle (Some err) st) = bookmarks st"
    by (simp add: handleAddBookmark_settle_def showToast_def)
  have s2: "bookmarks (handleDeleteBookmark_settle (Some err) st) = bookmarks st"
    by (simp add: handleDeleteBookmark_settle_def showToast_def)
  from add del s1 s2 show ?thesis
    by blast
qed

theorem persistence_error_leaves_list_witness:
  "trim (title_input (sample_form ''Example'' ''example.com'')) \<noteq> []
   \<and> isValidUrl sample_newURL (finalUrl_of (url_input (sample_form ''Example'' ''example.com'')))
   \<and> remote_down (Insert (trim (title_input (sample_form ''Example'' ''example.com'')))
         (finalUrl_of (url_input (sample_form ''Example'' ''example.com''))) ''u1'')
       = Some ''network error''
   \<and> remote_down (Delete_eq_id ''a'') = Some ''network error''
   \<and> handleAddBookmark sample_newURL remote_down ''u1'' [] (sample_form ''Example'' ''example.com'')
       = ((sample_form ''Example'' ''example.com'')
            \<lparr>toast := Some (''Failed to add bookmark'', Error), isAdding := False\<rparr>,
          [Insert ''Example'' ''https://example.com'' ''u1''])
   \<and> bookmarks (fst (handleAddBookmark sample_newURL remote_down ''u1'' []
         (sample_form ''Example'' ''example.com''))) = [bmB, bmA]
   \<and> handleDeleteBookmark remote_down ''a'' [] (sample_form [] [])
       = ((sample_form [] [])\<lparr>toast := Some (''Failed to delete bookmark'', Error)\<rparr>,
          [Delete_eq_id ''a''])
   \<and> bookmarks (fst (handleDeleteBookmark remote_down ''a'' [] (sample_form [] [])))
       = [bmB, bmA]"
proof -
  let ?st = "sample_form ''Example'' ''example.com''"
  have t: "trim (title_input ?st) = ''Example''"
    by (simp add: sample_form_def trim_def isWhiteSpace_def)
  have f: "finalUrl_of (url_input ?st) = ''https://example.com''"
    by (simp add: sample_form_def finalUrl_of_def trim_def isWhiteSpace_def)
  have t': "trim (title_input ?st) \<noteq> []"
    by (simp add: t)
  have v: "isValidUrl sample_newURL (finalUrl_of (url_input ?st))"
    by (simp only: f) (simp add: isValidUrl_def sample_newURL_def)
  have d: "remote_down (Insert (trim (title_input ?st)) (finalUrl_of (url_input ?st)) ''u1'')
       = Some ''network error''"
    by (simp add: remote_down_def)
  have d': "remote_down (Delete_eq_id ''a'') = Some ''network error''"
    by (simp add: remote_down_def)
  note w = persistence_error_leaves_list [where newURL = sample_newURL
      and supabase = remote_down and uid = "''u1''" and pending = "[]"
      and err = "''network error''" and i = "''a''"]
  have a: "handleAddBookmark sample_newURL remote_down ''u1'' [] ?st
       = ((on_changes [] ?st)
            \<lparr>toast := Some (''Failed to add bookmark'', Error), isAdding := False\<rparr>,
          [Insert (trim (title_input ?st)) (finalUrl_of (url_input ?st)) ''u1''])"
    using w [of ?st] t' v d by blast
  then have a': "handleAddBookmark sample_newURL remote_down ''u1'' [] ?st
       = (?st\<lparr>toast := Some (''Failed to add bookmark'', Error), isAdding := False\<rparr>,
          [Insert ''Example'' ''https://example.com'' ''u1''])"
    by (simp only: t f on_changes.simps)
  have b: "bookmarks (fst (handleAddBookmark sample_newURL remote_down ''u1'' [] ?st))
       = bookmarks ?st"
    using w [of ?st] t' v d by blast
  then have b': "bookmarks (fst (handleAddBookmark sample_newURL remote_down ''u1'' [] ?st))
       = [bmB, bmA]"
    by (simp add: sample_form_def DashboardClient_def)
  have c: "handleDeleteBookmark remote_down ''a'' [] (sample_form [] [])
       = ((on_changes [] (sample_form [] []))
            \<lparr>toast := Some (''Failed to delete bookmark'', Error)\<rparr>, [Delete_eq_id ''a''])"
    using w [of "sample_form [] []"] d' by blast
  then have c': "handleDeleteBookmark remote_down ''a'' [] (sample_form [] [])
       = ((sample_form [] [])\<lparr>toast := Some (''Failed to delete bookmark'', Error)\<rparr>,
          [Delete_eq_id ''a''])"
    by (simp only: on_changes.simps)
  have e: "bookmarks (fst (handleDeleteBookmark remote_down ''a'' [] (sample_form [] [])))
       = bookmarks (sample_form [] [])"
    using w [of "sample_form [] []"] d' by blast
  then have e': "bookmarks (fst (handleDeleteBookmark remote_down ''a'' [] (sample_form [] [])))
       = [bmB, bmA]"
    by (simp add: sample_form_def DashboardClient_def)
  from t' v d d' a' b' c' e' show ?thesis
    by blast
qed

text \<open>
  C3, against the code. The add handler never writes the list: after a call with no
  push event in between, the list is the list from before, also when the insert
  succeeded. For the title \<open>Example\<close> and the address \<open>example.com\<close> with a remote store
  that accepts, the handler sends the insert, shows \<open>Bookmark added!\<close> and clears the
  form; the list is still B, A, without the new record, and the insert is the only
  thing sent.
\<close>

theorem add_success_skips_local_update:
  "bookmarks (fst (handleAddBookmark newURL supabase uid [] st)) = bookmarks st
   \<and> handleAddBookmark sample_newURL remote_ok ''u1'' [] (sample_form ''Example'' ''example.com'')
       = ((DashboardClient [bmB, bmA])\<lparr>toast := Some (''Bookmark added!'', Success)\<rparr>,
          [Insert ''Example'' ''https://example.com'' ''u1''])
   \<and> bookmarks (fst (handleAddBookmark sample_newURL remote_ok ''u1'' []
         (sample_form ''Example'' ''example.com''))) = [bmB, bmA]
   \<and> list_all (\<lambda>b. title b \<noteq> ''Example'')
        (bookmarks (fst (handleAddBookmark sample_newURL remote_ok ''u1'' []
           (sample_form ''Example'' ''example.com''))))"
proof -
  let ?st = "sample_form ''Example'' ''example.com''"
  have t: "trim (title_input ?st) = ''Example''"
    by (simp add: sample_form_def trim_def isWhiteSpace_def)
  have f: "finalUrl_of (url_input ?st) = ''https://example.com''"
    by (simp add: sample_form_def finalUrl_of_def trim_def isWhiteSpace_def)
  have v: "isValidUrl sample_newURL (finalUrl_of (url_input ?st))"
    by (simp only: f) (simp add: isValidUrl_def sample_newURL_def)
  have run: "handleAddBookmark sample_newURL remote_ok ''u1'' [] ?st
       = ((DashboardClient [bmB, bmA])\<lparr>toast := Some (''Bookmark added!'', Success)\<rparr>,
          [Insert ''Example'' ''https://example.com'' ''u1''])"
  proof -
    have "trim (title_input ?st) \<noteq> []"
      by (simp add: t)
    then have "handleAddBookmark sample_newURL remote_ok ''u1'' [] ?st
        = (handleAddBookmark_settle
             (remote_ok (Insert (trim (title_input ?st)) (finalUrl_of (url_input ?st)) ''u1''))
             ((on_changes [] ?st)\<lparr>isAdding := True\<rparr>),
           [Insert (trim (title_input ?st)) (finalUrl_of (url_input ?st)) ''u1''])"
      using v by (rule handleAddBookmark_valid)
    then have "handleAddBookmark sample_newURL remote_ok ''u1'' [] ?st
        = (handleAddBookmark_settle (remote_ok (Insert ''Example'' ''https://example.com'' ''u1''))
             (?st\<lparr>isAdding := True\<rparr>),
           [Insert ''Example'' ''https://example.com'' ''u1''])"
      by (simp only: t f on_changes.simps)
    then show ?thesis
      by (simp add: handleAddBookmark_settle_def remote_ok_def showToast_def sample_form_def
          DashboardClient_def)
  qed
  have l: "bookmarks (fst (handleAddBookmark sample_newURL remote_ok ''u1'' [] ?st)) = [bmB, bmA]"
    by (simp only: run) (simp add: DashboardClient_def)
  have "list_all (\<lambda>b. title b \<noteq> ''Example'') [bmB, bmA]"
    by (simp add: bmA_def bmB_def)
  with l run handleAddBookmark_keeps_list [of newURL supabase uid st] show ?thesis
    by simp
qed

section \<open>Lifetime of the subscription\<close>

lemma realtime_effect_scoped:
  assumes "refs_below supabase"
  shows "scoped (channels supabase) (Some (uid, fst (realtime_effect uid supabase)),
           snd (realtime_effect uid supabase))"
proof -
  have "list_all (\<lambda>c. ref c \<noteq> next_ref supabase) (channels supabase)"
    using assms by (auto simp: refs_below_def list_all_iff)
  moreover have "list_all (\<lambda>c. ref c < Suc (next_ref supabase)) (channels supabase)"
    using assms by (auto simp: refs_below_def list_all_iff)
  ultimately show ?thesis
    by (simp add: realtime_effect_def Let_def refs_below_def own_channel_def)
qed

lemma removeChannel_scoped:
  assumes "scoped before (Some (dep, channel), supabase)"
  shows "refs_below (removeChannel channel supabase)"
    and "channels (removeChannel channel supabase) = before"
proof -
  from assms have r: "refs_below supabase" and c: "channels supabase = before @ [channel]"
    and n: "list_all (\<lambda>c. ref c \<noteq> ref channel) before"
    by simp_all
  from n have f: "filter (\<lambda>c. ref c \<noteq> ref channel) before = before"
    by (simp add: list_all_iff)
  show "channels (removeChannel channel supabase) = before"
    by (simp add: removeChannel_def c f)
  with r c show "refs_below (removeChannel channel supabase)"
    by (simp add: refs_below_def removeChannel_def)
qed

lemma react_scoped: "scoped before s \<Longrightarrow> scoped before (react e s)"
proof (induction e s rule: react.induct)
  case (1 uid supabase)
  then have "refs_below supabase" and "channels supabase = before"
    by simp_all
  then show ?case
    using realtime_effect_scoped [of supabase uid] by (simp add: case_prod_beta)
next
  case (2 uid dep channel supabase)
  show ?case
  proof (cases "uid = dep")
    case True
    with 2 show ?thesis by simp
  next
    case False
    let ?s = "removeChannel channel supabase"
    have "refs_below ?s" and "channels ?s = before"
      using removeChannel_scoped [OF 2] by simp_all
    then show ?thesis
      using False realtime_effect_scoped [of ?s uid] by (simp add: case_prod_beta)
  qed
next
  case (3 dep channel supabase)
  then show ?case
    using removeChannel_scoped [OF 3] by simp
qed simp_all

lemma reacts_scoped: "scoped before s \<Longrightarrow> scoped before (reacts es s)"
  by (induction es arbitrary: s) (simp_all add: react_scoped)

lemma reacts_append: "reacts (es @ es') s = reacts es' (reacts es s)"
  by (induction es arbitrary: s) simp_all

lemma react_Unmount_fst: "fst (react Unmount s) = None"
proof (cases s)
  case (Pair m supabase)
  then show ?thesis
    by (cases m) auto
qed

text \<open>
  The push channel is scoped to the mounted view. Whatever sequence of mounts,
  renders and unmounts React runs, the component has no channel of its own open while it is unmounted and
  exactly one, the push channel its cleanup closes over, while it is mounted; every
  cleanup removes the channel the effect opened. So after any history that ends with
  an unmount the component is unmounted and the client's channels are those that were
  open before the component started: the push subscription does not outlive the view.
\<close>

theorem push_subscription_released:
  assumes "refs_below supabase"
  shows "scoped (channels supabase) (reacts es (None, supabase))
    \<and> (fst (reacts es (None, supabase)) = None \<longrightarrow>
          channels (snd (reacts es (None, supabase))) = channels supabase)
    \<and> fst (reacts (es @ [Unmount]) (None, supabase)) = None
    \<and> channels (snd (reacts (es @ [Unmount]) (None, supabase))) = channels supabase"
proof -
  have start: "scoped (channels supabase) (None, supabase)"
    using assms by simp
  then have inv: "scoped (channels supabase) (reacts es (None, supabase))"
    by (rule reacts_scoped)
  have idle: "fst (reacts es (None, supabase)) = None \<longrightarrow>
          channels (snd (reacts es (None, supabase))) = channels supabase"
    using inv by (cases "reacts es (None, supabase)") auto
  have "scoped (channels supabase) (reacts (es @ [Unmount]) (None, supabase))"
    using start by (rule reacts_scoped)
  moreover have gone: "fst (reacts (es @ [Unmount]) (None, supabase)) = None"
    by (simp add: reacts_append react_Unmount_fst)
  ultimately have "channels (snd (reacts (es @ [Unmount]) (None, supabase))) = channels supabase"
    by (cases "reacts (es @ [Unmount]) (None, supabase)") auto
  with inv idle gone show ?thesis
    by blast
qed

theorem push_subscription_released_witness:
  "refs_below fresh_client
   \<and> channels (snd (reacts [Mount ''u1''] (None, fresh_client)))
       = [\<lparr>ref = 0, topic = ''bookmarks-realtime'',
           bindings =
             [\<lparr>event = INSERT_event, schema = ''public'', table = ''bookmarks'',
               row_filter = ''user_id=eq.u1''\<rparr>,
              \<lparr>event = DELETE_event, schema = ''public'', table = ''bookmarks'',
               row_filter = ''user_id=eq.u1''\<rparr>]\<rparr>]
   \<and> fst (reacts ([Mount ''u1'', Render ''u1'', Render ''u2''] @ [Unmount]) (None, fresh_client))
       = None
   \<and> channels (snd (reacts ([Mount ''u1'', Render ''u1'', Render ''u2''] @ [Unmount])
         (None, fresh_client))) = []"
proof -
  have wf: "refs_below fresh_client"
    by (simp add: refs_below_def fresh_client_def)
  have c: "channels fresh_client = []"
    by (simp add: fresh_client_def)
  have m: "channels (snd (reacts [Mount ''u1''] (None, fresh_client)))
       = [\<lparr>ref = 0, topic = ''bookmarks-realtime'',
           bindings =
             [\<lparr>event = INSERT_event, schema = ''public'', table = ''bookmarks'',
               row_filter = ''user_id=eq.u1''\<rparr>,
              \<lparr>event = DELETE_event, schema = ''public'', table = ''bookmarks'',
               row_filter = ''user_id=eq.u1''\<rparr>]\<rparr>]"
    by (simp add: realtime_effect_def fresh_client_def Let_def)
  note w = push_subscription_released [OF wf, of "[Mount ''u1'', Render ''u1'', Render ''u2'']"]
  have a: "fst (reacts ([Mount ''u1'', Render ''u1'', Render ''u2''] @ [Unmount])
        (None, fresh_client)) = None"
    using w by blast
  have "channels (snd (reacts ([Mount ''u1'', Render ''u1'', Render ''u2''] @ [Unmount])
        (None, fresh_client))) = channels fresh_client"
    using w by blast
  then have b: "channels (snd (reacts ([Mount ''u1'', Render ''u1'', Render ''u2''] @ [Unmount])
        (None, fresh_client))) = []"
    by (simp only: c)
  from wf m a b show ?thesis
    by blast
qed

text \<open>
  C8, against the code. Mounting the view for user \<open>u1\<close> on a client with no channel
  runs the effect of lines 46 to 84, and all it opens is the push channel
  \<open>bookmarks-realtime\<close> with its INSERT and DELETE bindings; unmounting runs the
  cleanup, which removes that channel and nothing else. The effect opens no cross-tab
  broadcast subscription, and the cleanup closes none.
\<close>

theorem mount_opens_push_channel_only:
  "react (Mount ''u1'') (None, fresh_client)
     = (Some (''u1'',
          \<lparr>ref = 0, topic = ''bookmarks-realtime'',
           bindings =
             [\<lparr>event = INSERT_event, schema = ''public'', table = ''bookmarks'',
               row_filter = ''user_id=eq.u1''\<rparr>,
              \<lparr>event = DELETE_event, schema = ''public'', table = ''bookmarks'',
               row_filter = ''user_id=eq.u1''\<rparr>]\<rparr>),
        \<lparr>channels =
           [\<lparr>ref = 0, topic = ''bookmarks-realtime'',
             bindings =
               [\<lparr>event = INSERT_event, schema = ''public'', table = ''bookmarks'',
                 row_filter = ''user_id=eq.u1''\<rparr>,
                \<lparr>event = DELETE_event, schema = ''public'', table = ''bookmarks'',
                 row_filter = ''user_id=eq.u1''\<rparr>]\<rparr>],
         next_ref = 1\<rparr>)
   \<and> length (channels (snd (react (Mount ''u1'') (None, fresh_client)))) = 1
   \<and> reacts [Mount ''u1'', Unmount] (None, fresh_client)
     = (None, \<lparr>channels = [], next_ref = 1\<rparr>)"
  by (simp add: realtime_effect_def removeChannel_def fresh_client_def Let_def)

end
